theory Spec2Isabelle
  imports Main "HOL-Library.AList"
begin

section \<open>Strings: \<open>str.split(sep="; ")\<close> and \<open>str.strip()\<close>\<close>

text \<open>
  A Python string is modelled as a \<^typ>\<open>string\<close> whose characters are the code points
  0..255. \<open>str_split\<close> is \<open>s.split(sep="; ")\<close>: it cuts at every occurrence of the
  two characters semicolon, space, scanning from the left, and always returns at least
  one token (the empty string gives one empty token).
\<close>

fun split_acc :: "string \<Rightarrow> string \<Rightarrow> string list" where
  "split_acc acc [] = [rev acc]"
| "split_acc acc [c] = [rev (c # acc)]"
| "split_acc acc (c # d # cs) =
     (if c = CHR '';'' \<and> d = CHR '' '' then rev acc # split_acc [] cs
      else split_acc (c # acc) (d # cs))"

definition str_split :: "string \<Rightarrow> string list" where
  "str_split s = split_acc [] s"

text \<open>
  \<open>str.strip()\<close> removes leading and trailing whitespace. Among the code points
  0..255 Python's whitespace is tab, line feed, vertical tab, form feed, carriage return,
  the four separators 28..31, space, next line (133) and no-break space (160).
\<close>

definition is_space :: "char \<Rightarrow> bool" where
  "is_space c = ((of_char c :: nat) \<in> {9, 10, 11, 12, 13, 28, 29, 30, 31, 32, 133, 160})"

definition str_strip :: "string \<Rightarrow> string" where
  "str_strip s = rev (dropWhile is_space (rev (dropWhile is_space s)))"

section \<open>The data frame\<close>

text \<open>
  The table read from the reaction file: the text columns \<open>Reactant\<close> and
  \<open>Product\<close> and the optional integer column \<open>Number of Reaction Steps\<close>
  (\<open>Steps\<close>; \<open>None\<close> when the column is absent). The columns of a pandas
  data frame have the same length.
\<close>

record table =
  Reactant :: "string list"
  Product :: "string list"
  Steps :: "int list option"

definition wf_table :: "table \<Rightarrow> bool" where
  "wf_table df =
     (length (Product df) = length (Reactant df) \<and>
      (case Steps df of None \<Rightarrow> True | Some zs \<Rightarrow> length zs = length (Reactant df)))"

datatype error = KeyError | IndexError | InvalidOption

section \<open>Node extraction: \<open>get_distinct_chemicals\<close>\<close>

text \<open>
  A Python dictionary keeps its keys in insertion order, so \<open>nodes\<close> is an association
  list: \<open>map_of\<close> is the lookup and \<open>AList.update\<close> the assignment \<open>d[k] = v\<close>,
  which overwrites the value of a key that is present, in place, and appends a new key.
\<close>

type_synonym nodes = "(string \<times> int) list"

text \<open>The body of the inner loop (lines 70-72), on the pair \<open>(nodes, idx)\<close>.\<close>

definition add_chemical :: "string \<Rightarrow> nodes \<times> int \<Rightarrow> nodes \<times> int" where
  "add_chemical chemical st =
     (case st of (nodes, idx) \<Rightarrow>
        if map_of nodes (str_strip chemical) = None
        then (AList.update (str_strip chemical) idx nodes, idx + 1)
        else (nodes, idx))"

definition get_distinct_chemicals :: "table \<Rightarrow> nodes" where
  "get_distinct_chemicals df =
     (let list_of_chemicals = Reactant df @ Product df
      in fst (fold (\<lambda>chem_string. fold add_chemical (str_split chem_string))
                list_of_chemicals ([], 1)))"

text \<open>
  The words of the specification: the trimmed tokens of all cells, and the distinct
  elements of a list in the order of their first occurrence.
\<close>

definition trimmed_tokens :: "table \<Rightarrow> string list" where
  "trimmed_tokens df = map str_strip (concat (map str_split (Reactant df @ Product df)))"

definition first_seen :: "'a list \<Rightarrow> 'a list" where
  "first_seen xs = rev (remdups (rev xs))"

section \<open>Edge extraction: \<open>get_edges\<close>\<close>

text \<open>
  A vertex is an integer identifier (\<open>use_chemical_names=False\<close>) or a chemical
  name. The weights are integers. \<open>edges\<close> is a Python set, \<open>added_edges\<close> a
  dictionary from pairs of vertices to weights.
\<close>

datatype vertex = Index int | Name string

type_synonym edge = "vertex \<times> vertex \<times> int"

record edge_state =
  added_edges :: "((vertex \<times> vertex) \<times> int) list"
  edges :: "edge set"

text \<open>
  Lines 86-89: a table without the weight column gets one, filled with ones, and a line
  is printed. The result is the table as the caller sees it afterwards, and the output.
\<close>

definition fill_steps :: "table \<Rightarrow> table \<times> string list" where
  "fill_steps df =
     (if Steps df = None
      then (df\<lparr>Steps := Some (replicate (length (Reactant df)) 1)\<rparr>,
            [''Number of Reaction Steps was not given. Feeling in with ones.''])
      else (df, []))"

text \<open>\<open>[nodes[temp] for temp in tokens]\<close>: the first missing key raises \<open>KeyError\<close>.\<close>

fun lookup_tokens :: "nodes \<Rightarrow> string list \<Rightarrow> error + vertex list" where
  "lookup_tokens nodes [] = Inr []"
| "lookup_tokens nodes (temp # ts) =
     (case map_of nodes temp of
        None \<Rightarrow> Inl KeyError
      | Some i \<Rightarrow>
          (case lookup_tokens nodes ts of
             Inl e \<Rightarrow> Inl e
           | Inr vs \<Rightarrow> Inr (Index i # vs)))"

text \<open>Lines 94-99: the reactants and the products of a row, as vertices.\<close>

definition row_vertices ::
  "nodes \<Rightarrow> bool \<Rightarrow> string \<Rightarrow> string \<Rightarrow> error + (vertex list \<times> vertex list)" where
  "row_vertices nodes use_chemical_names x y =
     (if \<not> use_chemical_names
      then (case lookup_tokens nodes (str_split x) of
              Inl e \<Rightarrow> Inl e
            | Inr reacts \<Rightarrow>
                (case lookup_tokens nodes (str_split y) of
                   Inl e \<Rightarrow> Inl e
                 | Inr products \<Rightarrow> Inr (reacts, products)))
      else Inr (map Name (str_split x), map Name (str_split y)))"

text \<open>Lines 102-109: the body of the innermost loop.\<close>

definition add_pair :: "bool \<Rightarrow> int \<Rightarrow> vertex \<Rightarrow> vertex \<Rightarrow> edge_state \<Rightarrow> edge_state" where
  "add_pair allow_multiple_edges z react product st =
     (if allow_multiple_edges
      then st\<lparr>edges := insert (react, product, z) (edges st),
              added_edges := AList.update (react, product) z (added_edges st)\<rparr>
      else (case map_of (added_edges st) (react, product) of
              Some w \<Rightarrow>
                if w > z
                then st\<lparr>added_edges := AList.update (react, product) z (added_edges st)\<rparr>
                else st
            | None \<Rightarrow> st\<lparr>added_edges := AList.update (react, product) z (added_edges st)\<rparr>))"

text \<open>Lines 93-109: the loop over the rows; an exception ends it.\<close>

fun rows_loop ::
  "nodes \<Rightarrow> bool \<Rightarrow> bool \<Rightarrow> (string \<times> string \<times> int) list \<Rightarrow> edge_state \<Rightarrow> error + edge_state" where
  "rows_loop nodes use_chemical_names allow_multiple_edges [] st = Inr st"
| "rows_loop nodes use_chemical_names allow_multiple_edges ((x, y, z) # rows) st =
     (case row_vertices nodes use_chemical_names x y of
        Inl e \<Rightarrow> Inl e
      | Inr (reacts, products) \<Rightarrow>
          rows_loop nodes use_chemical_names allow_multiple_edges rows
            (fold (\<lambda>react. fold (\<lambda>product. add_pair allow_multiple_edges z react product)
                                products)
               reacts st))"

text \<open>Lines 111-113: the edges rebuilt from the keys of \<open>added_edges\<close>.\<close>

fun collect_edges ::
  "((vertex \<times> vertex) \<times> int) list \<Rightarrow> (vertex \<times> vertex) list \<Rightarrow> edge set \<Rightarrow> error + edge set" where
  "collect_edges added [] es = Inr es"
| "collect_edges added ((key1, key2) # ks) es =
     (case map_of added (key1, key2) of
        None \<Rightarrow> Inl KeyError
      | Some w \<Rightarrow> collect_edges added ks (insert (key1, key2, w) es))"

text \<open>
  \<open>get_edges\<close> returns the table after the call (the caller's data frame is changed in
  place), the lines printed, and the set of edges or the exception raised.
\<close>

definition get_edges ::
  "table \<Rightarrow> nodes \<Rightarrow> bool \<Rightarrow> bool \<Rightarrow> table \<times> string list \<times> (error + edge set)" where
  "get_edges df nodes use_chemical_names allow_multiple_edges =
     (case fill_steps df of (df1, out) \<Rightarrow>
        (df1, out,
         (case Steps df1 of
            None \<Rightarrow> Inl KeyError
          | Some zs \<Rightarrow>
              (case rows_loop nodes use_chemical_names allow_multiple_edges
                      (zip (Reactant df1) (zip (Product df1) zs))
                      \<lparr>added_edges = [], edges = {}\<rparr> of
                 Inl e \<Rightarrow> Inl e
               | Inr st \<Rightarrow>
                   if \<not> allow_multiple_edges
                   then collect_edges (added_edges st) (map fst (added_edges st)) {}
                   else Inr (edges st)))))"

definition table_after :: "table \<times> string list \<times> (error + edge set) \<Rightarrow> table" where
  "table_after r = fst r"

definition printed :: "table \<times> string list \<times> (error + edge set) \<Rightarrow> string list" where
  "printed r = fst (snd r)"

definition returned :: "table \<times> string list \<times> (error + edge set) \<Rightarrow> error + edge set" where
  "returned r = snd (snd r)"

text \<open>
  The words of the specification. The weight of a row is its entry in the weight column,
  or 1 when the column is absent. A token stands for a vertex: its name, or the
  identifier the node mapping gives it. Each row generates the cross product of its
  reactant vertices and its product vertices, each pair with the row's weight.
\<close>

definition row_weights :: "table \<Rightarrow> int list" where
  "row_weights df =
     (case Steps df of None \<Rightarrow> replicate (length (Reactant df)) 1 | Some zs \<Rightarrow> zs)"

definition table_rows :: "table \<Rightarrow> (string \<times> string \<times> int) list" where
  "table_rows df = zip (Reactant df) (zip (Product df) (row_weights df))"

definition token_vertex :: "nodes \<Rightarrow> bool \<Rightarrow> string \<Rightarrow> vertex option" where
  "token_vertex nodes use_chemical_names t =
     (if use_chemical_names then Some (Name t) else map_option Index (map_of nodes t))"

definition row_triples :: "nodes \<Rightarrow> bool \<Rightarrow> string \<times> string \<times> int \<Rightarrow> edge list" where
  "row_triples nodes use_chemical_names row =
     (case row of (x, y, z) \<Rightarrow>
        concat (map (\<lambda>s. map (\<lambda>t. (s, t, z))
                              (List.map_filter (token_vertex nodes use_chemical_names) (str_split y)))
                 (List.map_filter (token_vertex nodes use_chemical_names) (str_split x))))"

definition generated_triples :: "nodes \<Rightarrow> bool \<Rightarrow> table \<Rightarrow> edge list" where
  "generated_triples nodes use_chemical_names df =
     concat (map (row_triples nodes use_chemical_names) (table_rows df))"

definition raw_tokens :: "table \<Rightarrow> string list" where
  "raw_tokens df = concat (map str_split (Reactant df @ Product df))"

text \<open>The weights of the generated triples that share a (source, target) pair.\<close>

definition pair_weights :: "edge list \<Rightarrow> vertex \<Rightarrow> vertex \<Rightarrow> int set" where
  "pair_weights trs s t = set [w. (a, b, w) \<leftarrow> trs, a = s \<and> b = t]"

text \<open>
  The tokens of a row, and when the lookups of a list of tokens all succeed: with
  chemical names nothing is looked up; with identifiers every token must be a key of
  the node mapping.
\<close>

definition row_tokens :: "string \<times> string \<times> int \<Rightarrow> string list" where
  "row_tokens row = (case row of (x, y, z) \<Rightarrow> str_split x @ str_split y)"

definition known :: "nodes \<Rightarrow> bool \<Rightarrow> string list \<Rightarrow> bool" where
  "known nodes use_chemical_names ts =
     (use_chemical_names \<or> (\<forall>t \<in> set ts. map_of nodes t \<noteq> None))"

definition edge_tokens :: "table \<Rightarrow> string list" where
  "edge_tokens df = concat (map row_tokens (table_rows df))"

section \<open>The aggregation helper: \<open>count_by\<close>\<close>

text \<open>
  A tuple is a list of fields. \<open>element[atr_number]\<close> counts a negative index from
  the end and raises \<open>IndexError\<close> out of range.
\<close>

definition py_index :: "'a list \<Rightarrow> int \<Rightarrow> error + 'a" where
  "py_index element atr_number =
     (if 0 \<le> atr_number \<and> atr_number < int (length element)
      then Inr (element ! nat atr_number)
      else if atr_number < 0 \<and> - int (length element) \<le> atr_number
      then Inr (element ! nat (int (length element) + atr_number))
      else Inl IndexError)"

text \<open>Line 126: \<open>[element[atr_number] for element in tuple_list]\<close>.\<close>

fun only_attributes :: "int \<Rightarrow> 'a list list \<Rightarrow> error + 'a list" where
  "only_attributes atr_number [] = Inr []"
| "only_attributes atr_number (element # tuple_list) =
     (case py_index element atr_number of
        Inl e \<Rightarrow> Inl e
      | Inr x \<Rightarrow>
          (case only_attributes atr_number tuple_list of
             Inl e \<Rightarrow> Inl e
           | Inr xs \<Rightarrow> Inr (x # xs)))"

text \<open>Lines 129-132: the body of the counting loop.\<close>

definition count_step :: "'a \<Rightarrow> ('a \<times> int) list \<Rightarrow> ('a \<times> int) list" where
  "count_step x counter =
     (case map_of counter x of
        Some c \<Rightarrow> AList.update x (c + 1) counter
      | None \<Rightarrow> AList.update x 1 counter)"

text \<open>The result is the pair of \<open>counter.keys()\<close> and \<open>counter.values()\<close>.\<close>

definition count_by :: "int \<Rightarrow> 'a list list \<Rightarrow> error + ('a list \<times> int list)" where
  "count_by atr_number tuple_list =
     (case only_attributes atr_number tuple_list of
        Inl e \<Rightarrow> Inl e
      | Inr attrs \<Rightarrow>
          (let counter = fold count_step attrs []
           in Inr (map fst counter, map snd counter)))"

text \<open>The words of the specification: an index that selects a field of every tuple.\<close>

definition valid_index :: "int \<Rightarrow> 'a list \<Rightarrow> bool" where
  "valid_index i element = (- int (length element) \<le> i \<and> i < int (length element))"

definition field :: "int \<Rightarrow> 'a list \<Rightarrow> 'a" where
  "field i element = element ! nat (if i < 0 then int (length element) + i else i)"

section \<open>Graph assembly: \<open>create_weighted_undirected_graph\<close>\<close>

text \<open>
  Modelled from the spec: the class \<open>Graph\<close> of the networkx library is not part of
  the sources. An undirected graph holds a dictionary of nodes and, for every node, a
  dictionary from its neighbours to the weight of the edge; adding an edge between two
  nodes that already have one overwrites its weight (the specification, 4.3: a later edge
  with the same endpoints silently overwrites the earlier weight).
\<close>

record graph =
  node :: "vertex list"
  adj :: "(vertex \<times> (vertex \<times> int) list) list"

definition empty_graph :: graph where
  "empty_graph = \<lparr>node = [], adj = []\<rparr>"

definition add_node :: "vertex \<Rightarrow> graph \<Rightarrow> graph" where
  "add_node n g =
     (if n \<in> set (node g) then g
      else g\<lparr>node := node g @ [n], adj := AList.update n [] (adj g)\<rparr>)"

definition add_nodes_from :: "vertex list \<Rightarrow> graph \<Rightarrow> graph" where
  "add_nodes_from ns g = fold add_node ns g"

definition set_adj :: "vertex \<Rightarrow> vertex \<Rightarrow> int \<Rightarrow> graph \<Rightarrow> graph" where
  "set_adj u v w g =
     g\<lparr>adj := AList.update u
                (AList.update v w (case map_of (adj g) u of None \<Rightarrow> [] | Some d \<Rightarrow> d))
                (adj g)\<rparr>"

definition add_weighted_edge :: "edge \<Rightarrow> graph \<Rightarrow> graph" where
  "add_weighted_edge e g =
     (case e of (u, v, w) \<Rightarrow> set_adj v u w (set_adj u v w (add_node v (add_node u g))))"

definition add_weighted_edges_from :: "edge list \<Rightarrow> graph \<Rightarrow> graph" where
  "add_weighted_edges_from ebunch g = fold add_weighted_edge ebunch g"

text \<open>
  The edges of the graph as networkx reports them: every node with its neighbours, in
  the order of the dictionaries, leaving out the neighbours already reported from.
\<close>

fun edges_from ::
  "(vertex \<times> (vertex \<times> int) list) list \<Rightarrow> vertex list \<Rightarrow> edge list" where
  "edges_from [] seen = []"
| "edges_from ((n, nbrs) # rest) seen =
     map (\<lambda>(nbr, w). (n, nbr, w)) (filter (\<lambda>(nbr, w). nbr \<notin> set seen) nbrs)
     @ edges_from rest (n # seen)"

definition graph_edges :: "graph \<Rightarrow> edge list" where
  "graph_edges g = edges_from (adj g) []"

text \<open>
  Lines 17-30. A Python set is iterated in an order of its own: \<open>order\<close> is that
  order, the list in which \<open>add_weighted_edges_from\<close> meets the edges.
\<close>

definition create_weighted_undirected_graph ::
  "(edge set \<Rightarrow> edge list) \<Rightarrow> table \<Rightarrow> bool \<Rightarrow> bool \<Rightarrow> error + (graph \<times> nodes)" where
  "create_weighted_undirected_graph order df use_chemical_names allow_multiple_edges =
     (let nodes = get_distinct_chemicals df
      in case returned (get_edges df nodes use_chemical_names allow_multiple_edges) of
           Inl e \<Rightarrow> Inl e
         | Inr es \<Rightarrow>
             (let g0 = (if \<not> use_chemical_names
                        then add_nodes_from (map (\<lambda>kv. Index (snd kv)) nodes) empty_graph
                        else add_nodes_from (map (\<lambda>kv. Name (fst kv)) nodes) empty_graph)
              in Inr (add_weighted_edges_from (order es) g0, nodes)))"

text \<open>The words of the specification: no two edges with the same unordered endpoints.\<close>

definition simple_graph :: "graph \<Rightarrow> bool" where
  "simple_graph g = distinct (map (\<lambda>(u, v, w). {u, v}) (graph_edges g))"

text \<open>
  The invariant of the adjacency dictionaries: no node and no neighbour is listed twice.
\<close>

definition distinct_adj :: "(vertex \<times> (vertex \<times> int) list) list \<Rightarrow> bool" where
  "distinct_adj al =
     (distinct (map fst al) \<and> (\<forall>entry \<in> set al. distinct (map fst (snd entry))))"

section \<open>The dispatch on selector strings\<close>

text \<open>
  The plotting and fitting routines of \<open>degree_distribution.py\<close> are kept as the
  record of what was called. The three routines that take a degree type raise an
  exception on a string that is neither \<open>"out"\<close> nor \<open>"in"\<close>.
\<close>

datatype action =
    CreateBarPlot
  | CreateScatterPlot
  | FindExponent string
  | ComparisonScatterPlot string
  | PdfComparison string
  | PdfComparisonInOut

definition create_comparison_scatter_plot_option1 :: "string \<Rightarrow> error + action" where
  "create_comparison_scatter_plot_option1 option =
     (if option = ''out'' then Inr (ComparisonScatterPlot ''out'')
      else if option = ''in'' then Inr (ComparisonScatterPlot ''in'')
      else Inl InvalidOption)"

definition create_pdf_comparison :: "string \<Rightarrow> error + action" where
  "create_pdf_comparison option =
     (if option = ''out'' then Inr (PdfComparison ''out'')
      else if option = ''in'' then Inr (PdfComparison ''in'')
      else Inl InvalidOption)"

text \<open>\<open>degree_distribution.analyse\<close>, lines 29-46, once the graph is built.\<close>

definition degree_distribution_analyse :: "string \<Rightarrow> error + action list" where
  "degree_distribution_analyse plot_type =
     (if plot_type = ''bar'' then Inr [CreateBarPlot]
      else if plot_type = ''scatter'' then Inr [CreateScatterPlot]
      else if plot_type = ''exponent''
        then Inr [FindExponent ''total'', FindExponent ''in'', FindExponent ''out'']
      else if plot_type = ''scatter_comparison_plot''
        then (case create_comparison_scatter_plot_option1 ''out'' of
                Inl e \<Rightarrow> Inl e
              | Inr a \<Rightarrow>
                  (case create_comparison_scatter_plot_option1 ''in'' of
                     Inl e \<Rightarrow> Inl e
                   | Inr b \<Rightarrow> Inr [a, b]))
      else if plot_type = ''distribution_comparison_plot''
        then (case create_pdf_comparison ''out'' of
                Inl e \<Rightarrow> Inl e
              | Inr a \<Rightarrow>
                  (case create_pdf_comparison ''in'' of
                     Inl e \<Rightarrow> Inl e
                   | Inr b \<Rightarrow> Inr [a, b, PdfComparisonInOut]))
      else Inr [])"

text \<open>
  \<open>main.analyse\<close>, lines 78-105: the analyses an option starts, and the value
  returned.
\<close>

datatype analysis =
    MergeAndGraphFragmentation
  | GraphFragmentation
  | ImportantMolecules
  | DegreeDistribution string
  | GraphProperty
  | CompareAverageShortestPathLength
  | GraphClusters
  | DegreeCorrelation string
  | CentralPointDominance
  | DatasetComparison

definition main_analyse :: "string \<Rightarrow> analysis list \<times> int" where
  "main_analyse option =
     ((if option = ''merge_and_graph_fragmentation'' then [MergeAndGraphFragmentation] else [])
      @ (if option = ''graph_fragmentation'' then [GraphFragmentation] else [])
      @ (if option = ''important_molecules'' then [ImportantMolecules] else [])
      @ (if option = ''degree_distribution''
         then [DegreeDistribution ''distribution_comparison_plot''] else [])
      @ (if option = ''graph_property''
         then [GraphProperty, CompareAverageShortestPathLength] else [])
      @ (if option = ''graph_clusters'' then [GraphClusters] else [])
      @ (if option = ''degree_correlation''
         then [DegreeCorrelation ''out'', DegreeCorrelation ''in''] else [])
      @ (if option = ''central_point_dominance'' then [CentralPointDominance] else [])
      @ (if option = ''dataset_comparison'' then [DatasetComparison] else []),
      0)"

section \<open>The tables of the test suite\<close>

definition df_1 :: table where
  "df_1 =
     \<lparr>Reactant = [''calcium; oxygen; nitrogen'', ''carbon-dioxide'', ''nitrogen'', ''oxygen'',
                  ''oxygen''],
      Product = [''oxygen; hydrogen'', ''carbon-dioxide'', ''nitrogen'', ''oxygen'', ''oxygen''],
      Steps = None\<rparr>"

definition df_with_steps :: table where
  "df_with_steps = df_1\<lparr>Steps := Some [2, 1, 3, 7, 4]\<rparr>"

text \<open>
  The single row of the specification's example, and a table whose reactant cell has two
  spaces after the semicolon, so that its second token starts with a space.
\<close>

definition row_example :: table where
  "row_example =
     \<lparr>Reactant = [''calcium; oxygen; nitrogen''], Product = [''oxygen; hydrogen''],
      Steps = None\<rparr>"

definition df_spaced :: table where
  "df_spaced = \<lparr>Reactant = [''calcium;  oxygen''], Product = [''hydrogen''], Steps = None\<rparr>"

text \<open>
  The edges expected from \<open>df_with_steps\<close> with multiple edges allowed, in the order in
  which the test suite lists them.
\<close>

definition expected_edges_df_with_steps :: "edge list" where
  "expected_edges_df_with_steps =
     [(Index 1, Index 2, 2), (Index 2, Index 2, 2), (Index 3, Index 2, 2),
      (Index 1, Index 5, 2), (Index 2, Index 5, 2), (Index 3, Index 5, 2),
      (Index 4, Index 4, 1), (Index 3, Index 3, 3), (Index 2, Index 2, 7),
      (Index 2, Index 2, 4)]"

definition list_of_tuples :: "int list list" where
  "list_of_tuples = [[1, 0], [2, 0], [3, 0], [1, 1], [2, 2]]"

section \<open>Properties of node extraction\<close>

lemma first_seen_Nil: "first_seen [] = []"
  by (simp add: first_seen_def)

lemma first_seen_snoc:
  "first_seen (xs @ [x]) = (if x \<in> set xs then first_seen xs else first_seen xs @ [x])"
  by (simp add: first_seen_def)

lemma set_first_seen: "set (first_seen xs) = set xs"
  by (simp add: first_seen_def)

lemma distinct_first_seen: "distinct (first_seen xs)"
  by (simp add: first_seen_def)

lemma length_first_seen: "length (first_seen xs) = card (set xs)"
  by (metis distinct_card distinct_first_seen set_first_seen)

lemma update_new: "map_of al k = None \<Longrightarrow> AList.update k v al = al @ [(k, v)]"
  by (induction al) (auto split: if_splits)

lemma fold_fold_concat: "fold (\<lambda>x. fold f (g x)) xs s = fold f (concat (map g xs)) s"
  by (induction xs arbitrary: s) simp_all

text \<open>
  The loop invariant: after the tokens \<open>ts\<close> the dictionary holds the distinct trimmed
  tokens in first-seen order, numbered from 1, and \<open>idx\<close> is the next free number.
\<close>

lemma fold_add_chemical:
  "fold add_chemical ts ([], 1) =
     (zip (first_seen (map str_strip ts)) (map (\<lambda>i. int i + 1) [0 ..< card (set (map str_strip ts))]),
      1 + int (card (set (map str_strip ts))))"
proof (induction ts rule: rev_induct)
  case Nil
  show ?case by (simp add: first_seen_Nil)
next
  case (snoc t ts)
  let ?ks = "first_seen (map str_strip ts)"
  let ?n = "card (set (map str_strip ts))"
  have len: "length ?ks = ?n" by (rule length_first_seen)
  have dom: "map_of (zip ?ks (map (\<lambda>i. int i + 1) [0 ..< ?n])) (str_strip t) = None
             \<longleftrightarrow> str_strip t \<notin> set (map str_strip ts)"
    using len by (simp add: map_of_zip_is_None set_first_seen)
  show ?case
  proof (cases "str_strip t \<in> set (map str_strip ts)")
    case True
    then have "insert (str_strip t) (set (map str_strip ts)) = set (map str_strip ts)"
      by auto
    with True dom snoc show ?thesis
      by (simp add: add_chemical_def first_seen_snoc)
  next
    case False
    then have card: "card (insert (str_strip t) (set (map str_strip ts))) = Suc ?n"
      by simp
    have "zip (?ks @ [str_strip t]) (map (\<lambda>i. int i + 1) [0 ..< ?n] @ [int ?n + 1])
          = zip ?ks (map (\<lambda>i. int i + 1) [0 ..< ?n]) @ [(str_strip t, int ?n + 1)]"
      using len by simp
    moreover have "map_of (zip ?ks (map (\<lambda>i. int i + 1) [0 ..< ?n])) (str_strip t) = None"
      using False dom by simp
    ultimately show ?thesis
      using False snoc card by (simp add: add_chemical_def first_seen_snoc update_new)
  qed
qed

lemma get_distinct_chemicals_eq:
  "get_distinct_chemicals df =
     zip (first_seen (trimmed_tokens df))
         (map (\<lambda>i. int i + 1) [0 ..< card (set (trimmed_tokens df))])"
  by (simp only: get_distinct_chemicals_def trimmed_tokens_def Let_def fold_fold_concat
      fold_add_chemical fst_conv)

lemma keys_get_distinct_chemicals:
  "map fst (get_distinct_chemicals df) = first_seen (trimmed_tokens df)"
  by (simp add: get_distinct_chemicals_eq length_first_seen)

lemma values_get_distinct_chemicals:
  "map snd (get_distinct_chemicals df) =
     map (\<lambda>i. int i + 1) [0 ..< card (set (trimmed_tokens df))]"
  by (simp add: get_distinct_chemicals_eq length_first_seen)

lemma length_get_distinct_chemicals:
  "length (get_distinct_chemicals df) = card (set (trimmed_tokens df))"
  by (simp add: get_distinct_chemicals_eq length_first_seen)

text \<open>
  C3: the keys of the mapping returned by \<open>get_distinct_chemicals\<close> are the distinct
  trimmed tokens of the \<open>Reactant\<close> and \<open>Product\<close> cells, split on \<open>"; "\<close>, in the
  order in which they are first seen; the identifiers are 1, 2, 3, ... in that order; there
  are as many identifiers as distinct trimmed tokens, and no name has two identifiers.
\<close>

theorem get_distinct_chemicals_spec:
  "map fst (get_distinct_chemicals df) = first_seen (trimmed_tokens df)
   \<and> set (map fst (get_distinct_chemicals df)) = set (trimmed_tokens df)
   \<and> map snd (get_distinct_chemicals df)
       = map (\<lambda>i. int i + 1) [0 ..< length (get_distinct_chemicals df)]
   \<and> length (get_distinct_chemicals df) = card (set (trimmed_tokens df))
   \<and> distinct (map fst (get_distinct_chemicals df))
   \<and> distinct (map snd (get_distinct_chemicals df))"
proof -
  have inj: "inj_on (\<lambda>i. int i + 1) (set [0 ..< n])" for n
    by (simp add: inj_on_def)
  have "distinct (map (\<lambda>i. int i + 1) [0 ..< card (set (trimmed_tokens df))])"
    using inj by (simp add: distinct_map)
  then show ?thesis
    by (simp only: keys_get_distinct_chemicals values_get_distinct_chemicals
        length_get_distinct_chemicals set_first_seen distinct_first_seen simp_thms)
qed

text \<open>
  C8: node extraction is a function of the \<open>Reactant\<close> and \<open>Product\<close> columns alone:
  two runs on tables with the same two columns, and so two runs on the same table, return
  the same mapping, with the same keys, the same integers and the same order.
\<close>

theorem get_distinct_chemicals_deterministic:
  "Reactant df2 = Reactant df1 \<Longrightarrow> Product df2 = Product df1 \<Longrightarrow>
   get_distinct_chemicals df2 = get_distinct_chemicals df1"
  by (simp add: get_distinct_chemicals_def)

theorem get_distinct_chemicals_deterministic_witness:
  "Reactant df_with_steps = Reactant df_1 \<and> Product df_with_steps = Product df_1
   \<and> get_distinct_chemicals df_with_steps = get_distinct_chemicals df_1
   \<and> get_distinct_chemicals df_1 =
       [(''calcium'', 1), (''oxygen'', 2), (''nitrogen'', 3), (''carbon-dioxide'', 4),
        (''hydrogen'', 5)]"
proof -
  have r: "Reactant df_with_steps = Reactant df_1" by (simp add: df_with_steps_def)
  have p: "Product df_with_steps = Product df_1" by (simp add: df_with_steps_def)
  have "get_distinct_chemicals df_1 =
       [(''calcium'', 1), (''oxygen'', 2), (''nitrogen'', 3), (''carbon-dioxide'', 4),
        (''hydrogen'', 5)]"
    by (simp add: get_distinct_chemicals_def df_1_def str_split_def add_chemical_def
        str_strip_def is_space_def)
  with r p get_distinct_chemicals_deterministic [OF r p] show ?thesis by simp
qed

section \<open>Properties of \<open>count_by\<close>\<close>

lemma py_index_valid: "valid_index i t \<Longrightarrow> py_index t i = Inr (field i t)"
  by (auto simp: valid_index_def py_index_def field_def)

lemma only_attributes_valid:
  "\<forall>t \<in> set ts. valid_index i t \<Longrightarrow> only_attributes i ts = Inr (map (field i) ts)"
  by (induction ts) (simp_all add: py_index_valid)

lemma map_of_keyed: "map_of (map (\<lambda>k. (k, f k)) ks) x = (if x \<in> set ks then Some (f x) else None)"
  by (induction ks) auto

lemma update_keyed:
  "x \<in> set ks \<Longrightarrow> distinct ks \<Longrightarrow>
   AList.update x v (map (\<lambda>k. (k, f k)) ks) = map (\<lambda>k. (k, if k = x then v else f k)) ks"
  by (induction ks) auto

lemma fold_count_step:
  "fold count_step xs [] = map (\<lambda>k. (k, int (count_list xs k))) (first_seen xs)"
proof (induction xs rule: rev_induct)
  case Nil
  show ?case by (simp add: first_seen_Nil)
next
  case (snoc x xs)
  show ?case
  proof (cases "x \<in> set xs")
    case True
    then have "x \<in> set (first_seen xs)" by (simp add: set_first_seen)
    then show ?thesis
      using snoc True
      by (simp add: count_step_def map_of_keyed first_seen_snoc update_keyed distinct_first_seen)
  next
    case False
    then have "map_of (map (\<lambda>k. (k, int (count_list xs k))) (first_seen xs)) x = None"
      by (simp add: map_of_keyed set_first_seen)
    then show ?thesis
      using snoc False
      by (auto simp add: count_step_def first_seen_snoc update_new set_first_seen)
  qed
qed

text \<open>
  C7: for an index that selects a field of every tuple, \<open>count_by\<close> returns the distinct
  values of that field in first-seen order, and with each value the number of tuples that
  have it; on the empty sequence both outputs are empty; on the tuples of the test suite,
  grouped by the second element, the values are 0, 1, 2 and the counts 3, 1, 1.
\<close>

theorem count_by_spec:
  "\<forall>t \<in> set tuple_list. valid_index atr_number t \<Longrightarrow>
   count_by atr_number tuple_list =
     Inr (first_seen (map (field atr_number) tuple_list),
          map (\<lambda>v. int (count_list (map (field atr_number) tuple_list) v))
              (first_seen (map (field atr_number) tuple_list)))
   \<and> count_by atr_number ([] :: 'a list list) = Inr ([], [])
   \<and> count_by 1 list_of_tuples = Inr ([0, 1, 2], [3, 1, 1])"
proof (intro conjI)
  assume v: "\<forall>t \<in> set tuple_list. valid_index atr_number t"
  show "count_by atr_number tuple_list =
     Inr (first_seen (map (field atr_number) tuple_list),
          map (\<lambda>v. int (count_list (map (field atr_number) tuple_list) v))
              (first_seen (map (field atr_number) tuple_list)))"
    by (simp add: count_by_def only_attributes_valid [OF v] fold_count_step comp_def)
  show "count_by atr_number ([] :: 'a list list) = Inr ([], [])"
    by (simp add: count_by_def)
  show "count_by 1 list_of_tuples = Inr ([0, 1, 2], [3, 1, 1])"
    by (simp add: count_by_def list_of_tuples_def py_index_def count_step_def)
qed

theorem count_by_spec_witness:
  "list_all (valid_index 0) list_of_tuples
   \<and> count_by 0 list_of_tuples = Inr ([1, 2, 3], [2, 2, 1])"
proof -
  have v: "\<forall>t \<in> set list_of_tuples. valid_index 0 t"
    by (simp add: list_of_tuples_def valid_index_def)
  have fs: "first_seen (map (field 0) list_of_tuples) = [1, 2, 3]"
    by (simp add: list_of_tuples_def first_seen_def field_def)
  have "count_by 0 list_of_tuples =
     Inr (first_seen (map (field 0) list_of_tuples),
          map (\<lambda>v. int (count_list (map (field 0) list_of_tuples) v))
              (first_seen (map (field 0) list_of_tuples)))"
    using count_by_spec [OF v] by (rule conjunct1)
  then have "count_by 0 list_of_tuples = Inr ([1, 2, 3], [2, 2, 1])"
    unfolding fs by (simp add: list_of_tuples_def field_def)
  with v show ?thesis
    by (simp add: list_all_iff)
qed

section \<open>Properties of edge extraction\<close>

lemma token_vertex_False: "token_vertex nodes False t = map_option Index (map_of nodes t)"
  by (simp add: token_vertex_def)

lemma token_vertex_True: "token_vertex nodes True t = Some (Name t)"
  by (simp add: token_vertex_def)

lemma row_triples_row:
  "row_triples nodes un (x, y, z) =
     concat (map (\<lambda>s. map (\<lambda>t. (s, t, z))
                           (List.map_filter (token_vertex nodes un) (str_split y)))
              (List.map_filter (token_vertex nodes un) (str_split x)))"
  by (simp add: row_triples_def)

lemma lookup_tokens_eq:
  "lookup_tokens nodes ts =
     (if \<forall>t \<in> set ts. map_of nodes t \<noteq> None
      then Inr (List.map_filter (token_vertex nodes False) ts) else Inl KeyError)"
proof -
  have eq: "token_vertex nodes False = (\<lambda>t. map_option Index (map_of nodes t))"
    by (rule ext) (simp add: token_vertex_def)
  show ?thesis
    unfolding eq
    by (induction ts) (auto simp: List.map_filter_simps split: option.splits)
qed

lemma map_filter_Name:
  "List.map_filter (token_vertex nodes True) ts = map Name ts"
  by (induction ts) (simp_all add: List.map_filter_simps token_vertex_True)

lemma row_vertices_eq:
  "row_vertices nodes un x y =
     (if known nodes un (str_split x @ str_split y)
      then Inr (List.map_filter (token_vertex nodes un) (str_split x),
                List.map_filter (token_vertex nodes un) (str_split y))
      else Inl KeyError)"
  by (cases un) (auto simp: row_vertices_def known_def lookup_tokens_eq map_filter_Name)

lemma fold_cross:
  "fold (\<lambda>r. fold (\<lambda>p. add_pair am z r p) ps) rs st =
   fold (\<lambda>e. case e of (s, t, w) \<Rightarrow> add_pair am w s t)
     (concat (map (\<lambda>s. map (\<lambda>t. (s, t, z)) ps) rs)) st"
proof -
  have inner: "fold (\<lambda>p. add_pair am z r p) ps st =
      fold (\<lambda>e. case e of (s, t, w) \<Rightarrow> add_pair am w s t) (map (\<lambda>t. (r, t, z)) ps) st"
    for r st
    by (induction ps arbitrary: st) simp_all
  show ?thesis
    by (induction rs arbitrary: st) (simp_all add: inner)
qed

lemma rows_loop_eq:
  "rows_loop nodes un am rows st =
     (if known nodes un (concat (map row_tokens rows))
      then Inr (fold (\<lambda>e. case e of (s, t, w) \<Rightarrow> add_pair am w s t)
                  (concat (map (row_triples nodes un) rows)) st)
      else Inl KeyError)"
proof (induction rows arbitrary: st)
  case Nil
  show ?case by (simp add: known_def)
next
  case (Cons row rows)
  obtain x y z where row: "row = (x, y, z)" by (cases row) auto
  have k: "known nodes un (concat (map row_tokens (row # rows))) \<longleftrightarrow>
        known nodes un (str_split x @ str_split y) \<and> known nodes un (concat (map row_tokens rows))"
    by (auto simp: known_def row row_tokens_def)
  show ?case
    unfolding k
    by (simp add: row row_vertices_eq Cons.IH fold_cross row_triples_row)
qed

lemma edges_fold_multi:
  "edges (fold (\<lambda>e. case e of (s, t, w) \<Rightarrow> add_pair True w s t) trs st) = edges st \<union> set trs"
  by (induction trs arbitrary: st) (auto simp: add_pair_def)

lemma fill_steps_Steps:
  "Steps (fst (fill_steps df)) = Some (row_weights df)"
  by (auto simp: fill_steps_def row_weights_def)

lemma fill_steps_cols:
  "Reactant (fst (fill_steps df)) = Reactant df" "Product (fst (fill_steps df)) = Product df"
  by (auto simp: fill_steps_def)

lemma returned_get_edges:
  "returned (get_edges df nodes un am) =
     (case rows_loop nodes un am (table_rows df) \<lparr>added_edges = [], edges = {}\<rparr> of
        Inl e \<Rightarrow> Inl e
      | Inr st \<Rightarrow>
          if \<not> am then collect_edges (added_edges st) (map fst (added_edges st)) {}
          else Inr (edges st))"
  by (auto simp: returned_def get_edges_def fill_steps_def row_weights_def table_rows_def
      split: prod.splits option.splits)

lemma returned_multi:
  "returned (get_edges df nodes un True) =
     (if known nodes un (edge_tokens df)
      then Inr (set (generated_triples nodes un df)) else Inl KeyError)"
  by (simp add: returned_get_edges rows_loop_eq edges_fold_multi generated_triples_def
      edge_tokens_def)

lemma pair_weights_iff: "w \<in> pair_weights trs s t \<longleftrightarrow> (s, t, w) \<in> set trs"
  by (auto simp: pair_weights_def)

lemma finite_pair_weights: "finite (pair_weights trs s t)"
  unfolding pair_weights_def by (rule finite_set)

lemma pair_weights_snoc:
  "pair_weights (trs @ [(a, b, z)]) s t =
     (if a = s \<and> b = t then insert z (pair_weights trs s t) else pair_weights trs s t)"
  by (auto simp: pair_weights_def)

lemma pair_weights_Nil: "pair_weights [] s t = {}"
  by (simp add: pair_weights_def)

lemma added_add_pair_single:
  "map_of (added_edges (add_pair False z a b st)) k =
     (if k = (a, b)
      then (case map_of (added_edges st) (a, b) of None \<Rightarrow> Some z | Some w \<Rightarrow> Some (min w z))
      else map_of (added_edges st) k)"
  by (auto simp: add_pair_def update_conv' min_def split: option.splits)

lemma added_fold_single:
  "map_of (added_edges (fold (\<lambda>e. case e of (s, t, w) \<Rightarrow> add_pair False w s t) trs
                          \<lparr>added_edges = [], edges = {}\<rparr>)) (s, t) =
     (if pair_weights trs s t = {} then None else Some (Min (pair_weights trs s t)))"
proof (induction trs rule: rev_induct)
  case Nil
  show ?case by (simp add: pair_weights_Nil)
next
  case (snoc e trs)
  obtain a b z where e: "e = (a, b, z)" by (cases e) auto
  define st where "st = fold (\<lambda>e. case e of (s, t, w) \<Rightarrow> add_pair False w s t) trs
               \<lparr>added_edges = [], edges = {}\<rparr>"
  let ?W = "pair_weights trs s t"
  have fin: "finite ?W" by (rule finite_pair_weights)
  have IH: "map_of (added_edges st) (s, t) = (if ?W = {} then None else Some (Min ?W))"
    unfolding st_def by (rule snoc)
  have step: "fold (\<lambda>e. case e of (s, t, w) \<Rightarrow> add_pair False w s t) (trs @ [(a, b, z)])
               \<lparr>added_edges = [], edges = {}\<rparr> = add_pair False z a b st"
    by (simp add: st_def)
  show ?case
  proof (cases "a = s \<and> b = t")
    case False
    then have pw: "pair_weights (trs @ [(a, b, z)]) s t = ?W"
      by (auto simp: pair_weights_snoc)
    from False have "(s, t) \<noteq> (a, b)" by auto
    then show ?thesis
      unfolding e step pw by (auto simp: added_add_pair_single IH)
  next
    case True
    then have pw: "pair_weights (trs @ [(a, b, z)]) s t = insert z ?W"
      by (simp add: pair_weights_snoc)
    from True have k: "(s, t) = (a, b)" by simp
    have "Min (insert z ?W) = (if ?W = {} then z else min (Min ?W) z)"
      using fin by (simp add: min.commute)
    then show ?thesis
      unfolding e step pw using IH k by (simp add: added_add_pair_single)
  qed
qed

lemma collect_edges_eq:
  "set ks \<subseteq> fst ` set added \<Longrightarrow>
   collect_edges added ks es =
     Inr (es \<union> {(k1, k2, w). (k1, k2) \<in> set ks \<and> map_of added (k1, k2) = Some w})"
proof (induction ks arbitrary: es)
  case Nil
  show ?case by simp
next
  case (Cons k ks)
  obtain k1 k2 where k: "k = (k1, k2)" by (cases k) auto
  from Cons.prems have "k \<in> fst ` set added" by simp
  then obtain w where w: "map_of added (k1, k2) = Some w"
    unfolding k by (metis domD dom_map_of_conv_image_fst)
  from Cons.prems have "set ks \<subseteq> fst ` set added" by simp
  then show ?case
    using w by (auto simp: k Cons.IH)
qed

lemma collect_edges_all:
  "collect_edges added (map fst added) {} = Inr {(k1, k2, w). map_of added (k1, k2) = Some w}"
proof -
  have "map_of added (k1, k2) = Some w \<Longrightarrow> (k1, k2) \<in> fst ` set added" for k1 k2 w
    by (metis domI dom_map_of_conv_image_fst)
  then show ?thesis
    by (subst collect_edges_eq) auto
qed

lemma returned_single:
  "returned (get_edges df nodes un False) =
     (if known nodes un (edge_tokens df)
      then Inr {(s, t, w). pair_weights (generated_triples nodes un df) s t \<noteq> {}
                          \<and> w = Min (pair_weights (generated_triples nodes un df) s t)}
      else Inl KeyError)"
proof -
  let ?g = "generated_triples nodes un df"
  let ?f = "\<lambda>e. case e of (s, t, w) \<Rightarrow> add_pair False w s t"
  let ?st0 = "\<lparr>added_edges = [], edges = {}\<rparr>"
  have loop: "rows_loop nodes un False (table_rows df) ?st0 =
      (if known nodes un (edge_tokens df)
       then Inr (fold ?f ?g ?st0) else Inl KeyError)"
    by (simp add: rows_loop_eq generated_triples_def edge_tokens_def)
  have coll: "collect_edges (added_edges (fold ?f ?g ?st0)) (map fst (added_edges (fold ?f ?g ?st0))) {}
        = Inr {(s, t, w). pair_weights ?g s t \<noteq> {} \<and> w = Min (pair_weights ?g s t)}"
    unfolding collect_edges_all added_fold_single by (auto split: if_splits)
  show ?thesis
    unfolding returned_get_edges loop using coll by simp
qed

lemma known_names: "known nodes True ts"
  by (simp add: known_def)

lemma set_generated_names:
  "set (generated_triples nodes True df) =
     (\<Union>(x, y, z) \<in> set (table_rows df).
        {(Name r, Name p, z) | r p. r \<in> set (str_split x) \<and> p \<in> set (str_split y)})"
proof -
  have row: "set (row_triples nodes True row) =
     (case row of (x, y, z) \<Rightarrow>
        {(Name r, Name p, z) | r p. r \<in> set (str_split x) \<and> p \<in> set (str_split y)})" for row
    by (cases row) (auto simp: row_triples_row map_filter_Name)
  show ?thesis
    by (simp add: generated_triples_def row)
qed

text \<open>
  C2: with multiple edges allowed, \<open>get_edges\<close> returns exactly the set of the triples
  generated by the rows, each row giving the cross product of its reactant tokens and its
  product tokens with the row's weight; a set holds a triple once, so only identical
  triples fall together. The lookups of the identifiers can fail; with chemical names
  nothing is looked up. The row of the example, without a weight column, gives the six
  edges of weight 1.
\<close>

theorem get_edges_multi_cross_product:
  "returned (get_edges df nodes use_chemical_names True) =
     (if known nodes use_chemical_names (edge_tokens df)
      then Inr (set (generated_triples nodes use_chemical_names df)) else Inl KeyError)
   \<and> returned (get_edges df nodes True True) =
       Inr (\<Union>(x, y, z) \<in> set (table_rows df).
              {(Name r, Name p, z) | r p. r \<in> set (str_split x) \<and> p \<in> set (str_split y)})
   \<and> returned (get_edges row_example nodes True True) =
       Inr {(Name ''calcium'', Name ''oxygen'', 1), (Name ''calcium'', Name ''hydrogen'', 1),
            (Name ''oxygen'', Name ''oxygen'', 1), (Name ''oxygen'', Name ''hydrogen'', 1),
            (Name ''nitrogen'', Name ''oxygen'', 1), (Name ''nitrogen'', Name ''hydrogen'', 1)}"
proof (intro conjI)
  show "returned (get_edges df nodes use_chemical_names True) =
     (if known nodes use_chemical_names (edge_tokens df)
      then Inr (set (generated_triples nodes use_chemical_names df)) else Inl KeyError)"
    by (rule returned_multi)
  show "returned (get_edges df nodes True True) =
       Inr (\<Union>(x, y, z) \<in> set (table_rows df).
              {(Name r, Name p, z) | r p. r \<in> set (str_split x) \<and> p \<in> set (str_split y)})"
    by (simp only: returned_multi known_names set_generated_names if_True)
  show "returned (get_edges row_example nodes True True) =
       Inr {(Name ''calcium'', Name ''oxygen'', 1), (Name ''calcium'', Name ''hydrogen'', 1),
            (Name ''oxygen'', Name ''oxygen'', 1), (Name ''oxygen'', Name ''hydrogen'', 1),
            (Name ''nitrogen'', Name ''oxygen'', 1), (Name ''nitrogen'', Name ''hydrogen'', 1)}"
    by (auto simp: returned_def get_edges_def row_example_def fill_steps_def row_vertices_def
        str_split_def add_pair_def)
qed

theorem get_edges_multi_cross_product_witness:
  "known (get_distinct_chemicals df_with_steps) False (edge_tokens df_with_steps)
   \<and> returned (get_edges df_with_steps (get_distinct_chemicals df_with_steps) False True) =
       Inr {(Index 1, Index 2, 2), (Index 2, Index 2, 2), (Index 3, Index 2, 2),
            (Index 1, Index 5, 2), (Index 2, Index 5, 2), (Index 3, Index 5, 2),
            (Index 4, Index 4, 1), (Index 3, Index 3, 3), (Index 2, Index 2, 7),
            (Index 2, Index 2, 4)}"
proof -
  have k: "known (get_distinct_chemicals df_with_steps) False (edge_tokens df_with_steps)"
    by code_simp
  have g: "set (generated_triples (get_distinct_chemicals df_with_steps) False df_with_steps) =
       {(Index 1, Index 2, 2), (Index 2, Index 2, 2), (Index 3, Index 2, 2),
        (Index 1, Index 5, 2), (Index 2, Index 5, 2), (Index 3, Index 5, 2),
        (Index 4, Index 4, 1), (Index 3, Index 3, 3), (Index 2, Index 2, 7),
        (Index 2, Index 2, 4)}"
    by code_simp
  from get_edges_multi_cross_product
    [of df_with_steps "get_distinct_chemicals df_with_steps" False]
  have "returned (get_edges df_with_steps (get_distinct_chemicals df_with_steps) False True) =
     Inr (set (generated_triples (get_distinct_chemicals df_with_steps) False df_with_steps))"
    using k by simp
  with k g show ?thesis by simp
qed

text \<open>
  C1: with multiple edges disallowed, whenever \<open>get_edges\<close> returns a set of edges
  (it does when the lookups succeed, so always with chemical names), every pair
  generated by at least one row has exactly one edge in the set, and the weight of that
  edge is the minimum of the weights of the rows that generate the pair.
\<close>

theorem get_edges_single_minimum:
  "(known nodes use_chemical_names (edge_tokens df) \<longrightarrow>
      (\<exists>E. returned (get_edges df nodes use_chemical_names False) = Inr E))
   \<and> (returned (get_edges df nodes use_chemical_names False) = Inr E \<longrightarrow>
        (s, t, w0) \<in> set (generated_triples nodes use_chemical_names df) \<longrightarrow>
          (\<exists>!w. (s, t, w) \<in> E)
          \<and> (s, t, Min (pair_weights (generated_triples nodes use_chemical_names df) s t)) \<in> E
          \<and> Min (pair_weights (generated_triples nodes use_chemical_names df) s t) \<le> w0
          \<and> (\<exists>w1. (s, t, w1) \<in> set (generated_triples nodes use_chemical_names df)
                \<and> Min (pair_weights (generated_triples nodes use_chemical_names df) s t) = w1))"
proof (intro conjI impI)
  assume "known nodes use_chemical_names (edge_tokens df)"
  then show "\<exists>E. returned (get_edges df nodes use_chemical_names False) = Inr E"
    by (simp add: returned_single)
next
  let ?g = "generated_triples nodes use_chemical_names df"
  assume r: "returned (get_edges df nodes use_chemical_names False) = Inr E"
    and g: "(s, t, w0) \<in> set ?g"
  from r have E: "E = {(s, t, w). pair_weights ?g s t \<noteq> {} \<and> w = Min (pair_weights ?g s t)}"
    by (simp add: returned_single split: if_splits)
  from g have mem: "w0 \<in> pair_weights ?g s t" by (simp add: pair_weights_iff)
  then have ne: "pair_weights ?g s t \<noteq> {}" by auto
  show "\<exists>!w. (s, t, w) \<in> E"
    using ne by (auto simp: E)
  show "(s, t, Min (pair_weights ?g s t)) \<in> E"
    using ne by (simp add: E)
  show "Min (pair_weights ?g s t) \<le> w0"
    using mem by (simp add: finite_pair_weights)
  have "Min (pair_weights ?g s t) \<in> pair_weights ?g s t"
    using ne by (simp add: finite_pair_weights)
  then show "\<exists>w1. (s, t, w1) \<in> set ?g \<and> Min (pair_weights ?g s t) = w1"
    by (simp add: pair_weights_iff)
qed

theorem get_edges_single_minimum_witness:
  "known (get_distinct_chemicals df_with_steps) False (edge_tokens df_with_steps)
   \<and> returned (get_edges df_with_steps (get_distinct_chemicals df_with_steps) False False) =
       Inr {(Index 1, Index 2, 2), (Index 2, Index 2, 2), (Index 3, Index 2, 2),
            (Index 1, Index 5, 2), (Index 2, Index 5, 2), (Index 3, Index 5, 2),
            (Index 4, Index 4, 1), (Index 3, Index 3, 3)}
   \<and> (Index 2, Index 2, 7)
       \<in> set (generated_triples (get_distinct_chemicals df_with_steps) False df_with_steps)
   \<and> Min (pair_weights
            (generated_triples (get_distinct_chemicals df_with_steps) False df_with_steps)
            (Index 2) (Index 2)) \<le> 7
   \<and> (\<exists>!w. (Index 2, Index 2, w) \<in>
         {(Index 1, Index 2, 2), (Index 2, Index 2, 2), (Index 3, Index 2, 2),
          (Index 1, Index 5, 2), (Index 2, Index 5, 2), (Index 3, Index 5, 2),
          (Index 4, Index 4, 1), (Index 3, Index 3, 3 :: int)})"
proof -
  let ?E = "{(Index 1, Index 2, 2), (Index 2, Index 2, 2), (Index 3, Index 2, 2),
            (Index 1, Index 5, 2), (Index 2, Index 5, 2), (Index 3, Index 5, 2),
            (Index 4, Index 4, 1), (Index 3, Index 3, 3 :: int)}"
  let ?g = "generated_triples (get_distinct_chemicals df_with_steps) False df_with_steps"
  let ?m = "Min (pair_weights ?g (Index 2) (Index 2))"
  have k: "known (get_distinct_chemicals df_with_steps) False (edge_tokens df_with_steps)"
    by code_simp
  have r: "returned (get_edges df_with_steps (get_distinct_chemicals df_with_steps) False False)
           = Inr ?E"
    by code_simp
  have g: "(Index 2, Index 2, 7) \<in> set ?g"
    by code_simp
  note th = get_edges_single_minimum
    [of "get_distinct_chemicals df_with_steps" False df_with_steps ?E "Index 2" "Index 2" 7]
  have c: "(\<exists>!w. (Index 2, Index 2, w) \<in> ?E) \<and> (Index 2, Index 2, ?m) \<in> ?E \<and> ?m \<le> 7
           \<and> (\<exists>w1. (Index 2, Index 2, w1) \<in> set ?g \<and> ?m = w1)"
    by (rule mp [OF mp [OF conjunct2 [OF th] r] g])
  have c1: "\<exists>!w. (Index 2, Index 2, w) \<in> ?E"
    using c by (rule conjunct1)
  have c3: "?m \<le> 7"
    using c by (rule conjunct1 [OF conjunct2 [OF conjunct2]])
  show ?thesis
    by (rule conjI [OF k conjI [OF r conjI [OF g conjI [OF c3 c1]]]])
qed

lemma str_strip_idem: "str_strip (str_strip s) = str_strip s"
proof -
  define a where "a = dropWhile is_space s"
  define b where "b = rev (dropWhile is_space (rev a))"
  have a: "dropWhile is_space a = a" by (simp add: a_def)
  have ab: "a = b @ rev (takeWhile is_space (rev a))"
  proof -
    have "b @ rev (takeWhile is_space (rev a))
          = rev (takeWhile is_space (rev a) @ dropWhile is_space (rev a))"
      unfolding b_def by (simp only: rev_append)
    also have "\<dots> = a"
      by (simp only: takeWhile_dropWhile_id rev_rev_ident)
    finally show ?thesis by (rule sym)
  qed
  have front: "dropWhile is_space b = b"
  proof (cases b)
    case Nil
    then show ?thesis by simp
  next
    case (Cons c cs)
    have "hd a = hd (b @ rev (takeWhile is_space (rev a)))"
      using ab by (rule arg_cong)
    then have "hd a = c" by (simp add: Cons)
    moreover have "a \<noteq> []"
    proof
      assume "a = []"
      with ab have "b = []" by simp
      with Cons show False by simp
    qed
    ultimately have "hd a = c" and "a \<noteq> []" by simp_all
    with a have "\<not> is_space c" by (auto simp: dropWhile_eq_self_iff)
    with Cons show ?thesis by simp
  qed
  have rear: "dropWhile is_space (rev b) = rev b"
    by (simp add: b_def)
  have "str_strip s = b" by (simp add: str_strip_def a_def b_def)
  moreover have "str_strip b = b" by (simp add: str_strip_def front rear)
  ultimately show ?thesis by simp
qed

lemma set_edge_tokens:
  "wf_table df \<Longrightarrow> set (edge_tokens df) = set (raw_tokens df)"
proof -
  assume wf: "wf_table df"
  let ?R = "Reactant df" and ?P = "Product df" and ?Z = "row_weights df"
  from wf have lp: "length ?P = length ?R" and lz: "length ?Z = length ?R"
    by (auto simp: wf_table_def row_weights_def split: option.splits)
  have "map fst (table_rows df) = ?R"
    using lp lz by (simp add: table_rows_def)
  then have R: "fst ` set (table_rows df) = set ?R"
    by (metis set_map)
  have snd_rows: "map snd (table_rows df) = zip ?P ?Z"
    using lp lz by (simp add: table_rows_def)
  have "map (\<lambda>r. fst (snd r)) (table_rows df) = map fst (map snd (table_rows df))"
    by (simp add: comp_def)
  also have "\<dots> = ?P"
    unfolding snd_rows using lp lz by simp
  finally have "map (\<lambda>r. fst (snd r)) (table_rows df) = ?P" .
  then have P: "(\<lambda>r. fst (snd r)) ` set (table_rows df) = set ?P"
    by (metis set_map)
  have "set (edge_tokens df) =
      (\<Union>x \<in> fst ` set (table_rows df). set (str_split x))
      \<union> (\<Union>y \<in> (\<lambda>r. fst (snd r)) ` set (table_rows df). set (str_split y))"
    by (auto simp: edge_tokens_def row_tokens_def)
  then show ?thesis
    unfolding R P by (auto simp: raw_tokens_def)
qed

lemma key_get_distinct_chemicals:
  "map_of (get_distinct_chemicals df) t \<noteq> None \<longleftrightarrow> t \<in> set (trimmed_tokens df)"
proof -
  have "fst ` set (get_distinct_chemicals df) = set (trimmed_tokens df)"
    by (metis keys_get_distinct_chemicals set_first_seen set_map)
  then show ?thesis
    by (simp add: map_of_eq_None_iff)
qed

lemma trimmed_tokens_raw: "trimmed_tokens df = map str_strip (raw_tokens df)"
  by (simp add: trimmed_tokens_def raw_tokens_def)

lemma raw_token_key:
  "t \<in> set (raw_tokens df) \<Longrightarrow>
   map_of (get_distinct_chemicals df) t \<noteq> None \<longleftrightarrow> str_strip t = t"
proof
  assume "map_of (get_distinct_chemicals df) t \<noteq> None"
  then have "t \<in> set (trimmed_tokens df)"
    using key_get_distinct_chemicals [of df t] by blast
  then obtain u where "t = str_strip u"
    by (auto simp: trimmed_tokens_raw)
  then show "str_strip t = t" by (simp add: str_strip_idem)
next
  assume t: "t \<in> set (raw_tokens df)" and "str_strip t = t"
  then have "t \<in> str_strip ` set (raw_tokens df)" by (metis imageI)
  then have "t \<in> set (trimmed_tokens df)" by (simp add: trimmed_tokens_raw)
  then show "map_of (get_distinct_chemicals df) t \<noteq> None"
    using key_get_distinct_chemicals [of df t] by blast
qed

lemma returned_known:
  "(\<exists>E. returned (get_edges df nodes un am) = Inr E) \<longleftrightarrow> known nodes un (edge_tokens df)"
  by (cases am) (simp_all add: returned_multi returned_single)

lemma returned_unknown:
  "\<not> known nodes un (edge_tokens df) \<Longrightarrow> returned (get_edges df nodes un am) = Inl KeyError"
  by (cases am) (simp_all add: returned_multi returned_single)

text \<open>
  C9: with identifiers, on a table whose columns have the same length and the node
  mapping extracted from it, \<open>get_edges\<close> returns a set of edges exactly when every
  token of the cells equals its trimmed form; a token with surrounding whitespace is not
  a key of the mapping, although its trimmed form is, and then the call raises
  \<open>KeyError\<close>.
\<close>

theorem get_edges_untrimmed_token:
  "wf_table df \<Longrightarrow>
   ((\<exists>E. returned (get_edges df (get_distinct_chemicals df) False allow_multiple_edges) = Inr E)
      \<longleftrightarrow> (\<forall>t \<in> set (raw_tokens df). str_strip t = t))
   \<and> ((\<exists>t \<in> set (raw_tokens df). str_strip t \<noteq> t) \<longrightarrow>
        returned (get_edges df (get_distinct_chemicals df) False allow_multiple_edges)
          = Inl KeyError)
   \<and> (\<forall>t \<in> set (raw_tokens df). str_strip t \<noteq> t \<longrightarrow>
          map_of (get_distinct_chemicals df) t = None
          \<and> map_of (get_distinct_chemicals df) (str_strip t) \<noteq> None)"
proof -
  assume wf: "wf_table df"
  let ?nodes = "get_distinct_chemicals df"
  have k: "known ?nodes False (edge_tokens df) \<longleftrightarrow> (\<forall>t \<in> set (raw_tokens df). str_strip t = t)"
    using raw_token_key [of _ df] by (auto simp: known_def set_edge_tokens [OF wf])
  have a: "(\<exists>E. returned (get_edges df ?nodes False allow_multiple_edges) = Inr E)
      \<longleftrightarrow> (\<forall>t \<in> set (raw_tokens df). str_strip t = t)"
    unfolding returned_known k ..
  have b: "(\<exists>t \<in> set (raw_tokens df). str_strip t \<noteq> t) \<longrightarrow>
        returned (get_edges df ?nodes False allow_multiple_edges) = Inl KeyError"
    using returned_unknown [of ?nodes False df allow_multiple_edges] k by blast
  have c: "\<forall>t \<in> set (raw_tokens df). str_strip t \<noteq> t \<longrightarrow>
          map_of ?nodes t = None \<and> map_of ?nodes (str_strip t) \<noteq> None"
  proof (intro ballI impI conjI)
    fix t assume t: "t \<in> set (raw_tokens df)" and ne: "str_strip t \<noteq> t"
    show "map_of ?nodes t = None"
      using raw_token_key [OF t] ne by blast
    have "str_strip t \<in> set (trimmed_tokens df)"
      using t by (simp add: trimmed_tokens_raw)
    then show "map_of ?nodes (str_strip t) \<noteq> None"
      using key_get_distinct_chemicals [of df "str_strip t"] by blast
  qed
  from a b c show ?thesis by blast
qed

theorem get_edges_untrimmed_token_witness:
  "wf_table df_spaced
   \<and> '' oxygen'' \<in> set (raw_tokens df_spaced)
   \<and> str_strip '' oxygen'' = ''oxygen''
   \<and> map_of (get_distinct_chemicals df_spaced) '' oxygen'' = None
   \<and> map_of (get_distinct_chemicals df_spaced) ''oxygen'' = Some 2
   \<and> returned (get_edges df_spaced (get_distinct_chemicals df_spaced) False True)
       = Inl KeyError"
proof -
  have wf: "wf_table df_spaced"
    by (simp add: wf_table_def df_spaced_def)
  have t: "'' oxygen'' \<in> set (raw_tokens df_spaced)"
    by (simp add: raw_tokens_def df_spaced_def str_split_def)
  have s: "str_strip '' oxygen'' = ''oxygen''"
    by (simp add: str_strip_def is_space_def)
  have n: "map_of (get_distinct_chemicals df_spaced) ''oxygen'' = Some 2"
    by code_simp
  have ne: "str_strip '' oxygen'' \<noteq> '' oxygen''"
    unfolding s by simp
  note th = get_edges_untrimmed_token [OF wf, of True]
  from th t ne have "map_of (get_distinct_chemicals df_spaced) '' oxygen'' = None"
    by blast
  moreover from th t ne
  have "returned (get_edges df_spaced (get_distinct_chemicals df_spaced) False True)
       = Inl KeyError"
    by blast
  ultimately show ?thesis
    using wf t s n by blast
qed

text \<open>
  C10: a table without the weight column is returned to the caller with the column
  added, holding 1 for every row; a table with the column is left as it is; the
  \<open>Reactant\<close> and \<open>Product\<close> columns are never changed, also when the call raises.
\<close>

theorem get_edges_frame:
  "table_after (get_edges df nodes use_chemical_names allow_multiple_edges) =
     (if Steps df = None
      then df\<lparr>Steps := Some (replicate (length (Reactant df)) 1)\<rparr>
      else df)
   \<and> Reactant (table_after (get_edges df nodes use_chemical_names allow_multiple_edges))
       = Reactant df
   \<and> Product (table_after (get_edges df nodes use_chemical_names allow_multiple_edges))
       = Product df"
  by (simp add: table_after_def get_edges_def fill_steps_def)

lemma returned_generated:
  "returned (get_edges df nodes un am) = Inr E \<Longrightarrow> e \<in> E \<Longrightarrow>
   e \<in> set (generated_triples nodes un df)"
proof (cases am)
  case True
  assume "returned (get_edges df nodes un am) = Inr E" and "e \<in> E"
  with True show ?thesis
    by (simp add: returned_multi split: if_splits)
next
  case False
  let ?g = "generated_triples nodes un df"
  assume r: "returned (get_edges df nodes un am) = Inr E" and e: "e \<in> E"
  from r False
  have E: "E = {(s, t, w). pair_weights ?g s t \<noteq> {} \<and> w = Min (pair_weights ?g s t)}"
    by (simp add: returned_single split: if_splits)
  obtain s t w where est: "e = (s, t, w)" by (cases e) auto
  from e have ne: "pair_weights ?g s t \<noteq> {}" and w: "w = Min (pair_weights ?g s t)"
    by (auto simp: E est)
  have "Min (pair_weights ?g s t) \<in> pair_weights ?g s t"
    using ne by (simp add: finite_pair_weights)
  then show ?thesis
    by (simp add: est w pair_weights_iff)
qed

lemma generated_weight_one:
  "Steps df = None \<Longrightarrow> e \<in> set (generated_triples nodes un df) \<Longrightarrow> snd (snd e) = 1"
proof -
  assume n: "Steps df = None" and e: "e \<in> set (generated_triples nodes un df)"
  then obtain x y z where row: "(x, y, z) \<in> set (table_rows df)"
    and er: "e \<in> set (row_triples nodes un (x, y, z))"
    by (auto simp: generated_triples_def)
  from row have "z \<in> set (row_weights df)"
    by (auto simp: table_rows_def dest!: set_zip_rightD)
  with n have "z = 1" by (simp add: row_weights_def)
  with er show ?thesis
    by (auto simp: row_triples_row)
qed

lemma table_rows_filled:
  "table_rows (df\<lparr>Steps := Some (replicate (length (Reactant df)) 1)\<rparr>) =
     zip (Reactant df) (zip (Product df) (replicate (length (Reactant df)) 1))"
  by (simp add: table_rows_def row_weights_def)

lemma table_rows_missing:
  "Steps df = None \<Longrightarrow>
   table_rows df = zip (Reactant df) (zip (Product df) (replicate (length (Reactant df)) 1))"
  by (simp add: table_rows_def row_weights_def)

text \<open>
  C5: a table without the weight column does not make \<open>get_edges\<close> fail: the call
  prints the note and gives every row the weight 1; the missing column raises nothing,
  the call returns what it returns on the same table with a column of ones; it returns
  a set of edges whenever every token looked up is a key of the node mapping, so always
  with chemical names; and every edge it returns has weight 1.
\<close>

theorem get_edges_missing_steps:
  "Steps df = None \<Longrightarrow>
   printed (get_edges df nodes use_chemical_names allow_multiple_edges)
     = [''Number of Reaction Steps was not given. Feeling in with ones.'']
   \<and> Steps (table_after (get_edges df nodes use_chemical_names allow_multiple_edges))
       = Some (replicate (length (Reactant df)) 1)
   \<and> returned (get_edges df nodes use_chemical_names allow_multiple_edges)
       = returned (get_edges (df\<lparr>Steps := Some (replicate (length (Reactant df)) 1)\<rparr>)
                     nodes use_chemical_names allow_multiple_edges)
   \<and> (known nodes use_chemical_names (edge_tokens df) \<longrightarrow>
        (\<exists>E. returned (get_edges df nodes use_chemical_names allow_multiple_edges) = Inr E))
   \<and> (\<exists>E. returned (get_edges df nodes True allow_multiple_edges) = Inr E)
   \<and> (\<forall>E e. returned (get_edges df nodes use_chemical_names allow_multiple_edges) = Inr E
          \<longrightarrow> e \<in> E \<longrightarrow> snd (snd e) = 1)"
proof (intro conjI)
  assume n: "Steps df = None"
  show "printed (get_edges df nodes use_chemical_names allow_multiple_edges)
     = [''Number of Reaction Steps was not given. Feeling in with ones.'']"
    using n by (simp add: printed_def get_edges_def fill_steps_def)
  show "Steps (table_after (get_edges df nodes use_chemical_names allow_multiple_edges))
       = Some (replicate (length (Reactant df)) 1)"
    using n by (simp add: table_after_def get_edges_def fill_steps_def)
  show "returned (get_edges df nodes use_chemical_names allow_multiple_edges)
       = returned (get_edges (df\<lparr>Steps := Some (replicate (length (Reactant df)) 1)\<rparr>)
                     nodes use_chemical_names allow_multiple_edges)"
    unfolding returned_get_edges table_rows_filled table_rows_missing [OF n] ..
  show "known nodes use_chemical_names (edge_tokens df) \<longrightarrow>
        (\<exists>E. returned (get_edges df nodes use_chemical_names allow_multiple_edges) = Inr E)"
    by (simp add: returned_known)
  show "\<exists>E. returned (get_edges df nodes True allow_multiple_edges) = Inr E"
    by (simp add: returned_known known_names)
  show "\<forall>E e. returned (get_edges df nodes use_chemical_names allow_multiple_edges) = Inr E
          \<longrightarrow> e \<in> E \<longrightarrow> snd (snd e) = 1"
    using generated_weight_one [OF n] returned_generated by blast
qed

theorem get_edges_missing_steps_witness:
  "Steps df_1 = None
   \<and> printed (get_edges df_1 (get_distinct_chemicals df_1) False True)
       = [''Number of Reaction Steps was not given. Feeling in with ones.'']
   \<and> Steps (table_after (get_edges df_1 (get_distinct_chemicals df_1) False True))
       = Some [1, 1, 1, 1, 1]
   \<and> returned (get_edges df_1 (get_distinct_chemicals df_1) False True)
       = Inr {(Index 1, Index 2, 1), (Index 2, Index 2, 1), (Index 3, Index 2, 1),
              (Index 1, Index 5, 1), (Index 2, Index 5, 1), (Index 3, Index 5, 1),
              (Index 4, Index 4, 1), (Index 3, Index 3, 1)}"
proof -
  have n: "Steps df_1 = None" by (simp add: df_1_def)
  have len: "replicate (length (Reactant df_1)) (1 :: int) = [1, 1, 1, 1, 1]"
    by (simp add: df_1_def)
  have r: "returned (get_edges df_1 (get_distinct_chemicals df_1) False True)
       = Inr {(Index 1, Index 2, 1), (Index 2, Index 2, 1), (Index 3, Index 2, 1),
              (Index 1, Index 5, 1), (Index 2, Index 5, 1), (Index 3, Index 5, 1),
              (Index 4, Index 4, 1), (Index 3, Index 3, 1)}"
    by code_simp
  note th = get_edges_missing_steps [OF n, of "get_distinct_chemicals df_1" False True]
  have p: "printed (get_edges df_1 (get_distinct_chemicals df_1) False True)
       = [''Number of Reaction Steps was not given. Feeling in with ones.'']"
    using th by (rule conjunct1)
  have s: "Steps (table_after (get_edges df_1 (get_distinct_chemicals df_1) False True))
       = Some (replicate (length (Reactant df_1)) 1)"
    using th by (rule conjunct1 [OF conjunct2])
  show ?thesis
    using n p s r unfolding len by (intro conjI)
qed

section \<open>Properties of graph assembly\<close>

lemma set_update_subset: "set (AList.update k v al) \<subseteq> insert (k, v) (set al)"
  by (induction al) auto

lemma distinct_adj_update:
  "distinct_adj al \<Longrightarrow> distinct (map fst d) \<Longrightarrow> distinct_adj (AList.update k d al)"
  unfolding distinct_adj_def
  using set_update_subset [of k d al] by (auto simp: distinct_update)

lemma distinct_adj_lookup:
  "distinct_adj al \<Longrightarrow>
   distinct (map fst (case map_of al u of None \<Rightarrow> [] | Some d \<Rightarrow> d))"
  by (auto simp: distinct_adj_def split: option.splits dest!: map_of_SomeD)

lemma distinct_adj_add_node: "distinct_adj (adj g) \<Longrightarrow> distinct_adj (adj (add_node n g))"
  by (simp add: add_node_def distinct_adj_update)

lemma distinct_adj_set_adj: "distinct_adj (adj g) \<Longrightarrow> distinct_adj (adj (set_adj u v w g))"
  by (simp add: set_adj_def distinct_adj_update distinct_adj_lookup distinct_update)

lemma distinct_adj_add_weighted_edge:
  "distinct_adj (adj g) \<Longrightarrow> distinct_adj (adj (add_weighted_edge e g))"
  by (cases e) (simp add: add_weighted_edge_def distinct_adj_set_adj distinct_adj_add_node)

lemma distinct_adj_add_nodes_from:
  "distinct_adj (adj g) \<Longrightarrow> distinct_adj (adj (add_nodes_from ns g))"
  unfolding add_nodes_from_def
  by (induction ns arbitrary: g) (simp_all add: distinct_adj_add_node)

lemma distinct_adj_add_weighted_edges_from:
  "distinct_adj (adj g) \<Longrightarrow> distinct_adj (adj (add_weighted_edges_from es g))"
  unfolding add_weighted_edges_from_def
  by (induction es arbitrary: g) (simp_all add: distinct_adj_add_weighted_edge)

lemma distinct_adj_empty: "distinct_adj (adj empty_graph)"
  by (simp add: distinct_adj_def empty_graph_def)

lemma edges_from_ends:
  "(u, v, w) \<in> set (edges_from al seen) \<Longrightarrow> u \<in> fst ` set al \<and> v \<notin> set seen"
proof (induction al arbitrary: seen)
  case Nil
  then show ?case by simp
next
  case (Cons entry al)
  obtain n nbrs where entry: "entry = (n, nbrs)" by (cases entry) auto
  from Cons.prems consider
      (here) "(u, v, w) \<in> set (map (\<lambda>(nbr, w). (n, nbr, w))
                                   (filter (\<lambda>(nbr, w). nbr \<notin> set seen) nbrs))"
    | (later) "(u, v, w) \<in> set (edges_from al (n # seen))"
    by (auto simp: entry)
  then show ?case
  proof cases
    case here
    then show ?thesis by (auto simp: entry)
  next
    case later
    from Cons.IH [OF later] show ?thesis by (auto simp: entry)
  qed
qed

lemma here_source:
  "e \<in> set (map (\<lambda>(nbr, w). (n, nbr, w)) xs) \<Longrightarrow> fst e = n"
  by auto

lemma distinct_edges_from:
  "distinct_adj al \<Longrightarrow> distinct (map (\<lambda>(u, v, w). {u, v}) (edges_from al seen))"
proof (induction al arbitrary: seen)
  case Nil
  show ?case by simp
next
  case (Cons entry al)
  obtain n nbrs where entry: "entry = (n, nbrs)" by (cases entry) auto
  define key :: "edge \<Rightarrow> vertex set" where "key = (\<lambda>(u, v, w). {u, v})"
  define H where "H = map (\<lambda>(nbr, w). (n, nbr, w)) (filter (\<lambda>(nbr, w). nbr \<notin> set seen) nbrs)"
  define L where "L = edges_from al (n # seen)"
  from Cons.prems have dn: "distinct (map fst nbrs)" and n: "n \<notin> fst ` set al"
    and rest: "distinct_adj al"
    by (auto simp: distinct_adj_def entry)
  define ks where "ks = map fst (filter (\<lambda>(nbr, w). nbr \<notin> set seen) nbrs)"
  have dk: "distinct ks"
    unfolding ks_def using dn by (rule distinct_map_filter)
  have inj: "inj_on (\<lambda>x. {n, x}) (set ks)"
    by (auto simp: inj_on_def doubleton_eq_iff)
  have "distinct (map (\<lambda>x. {n, x}) ks)"
    using dk inj by (simp only: distinct_map simp_thms)
  moreover have "map key H = map (\<lambda>x. {n, x}) ks"
    unfolding ks_def H_def key_def by (simp add: comp_def case_prod_beta)
  ultimately have d1: "distinct (map key H)" by simp
  have d2: "distinct (map key L)"
    unfolding key_def L_def by (rule Cons.IH [OF rest])
  have differ: "key e1 \<noteq> key e2" if e1: "e1 \<in> set H" and e2: "e2 \<in> set L" for e1 e2
  proof
    assume eq: "key e1 = key e2"
    obtain u v w where e2': "e2 = (u, v, w)" by (cases e2) auto
    obtain a nbr w1 where e1': "e1 = (a, nbr, w1)" by (cases e1) auto
    from e1 have "fst e1 = n" unfolding H_def by (rule here_source)
    then have a: "a = n" by (simp add: e1')
    from e2 have "(u, v, w) \<in> set (edges_from al (n # seen))" by (simp add: e2' L_def)
    then have "u \<in> fst ` set al \<and> v \<notin> set (n # seen)" by (rule edges_from_ends)
    then have "u \<in> fst ` set al" and "v \<noteq> n" by auto
    with n have "u \<noteq> n" by auto
    from eq have "{n, nbr} = {u, v}" by (simp add: e1' e2' a key_def)
    then have "n = u \<or> n = v" by (auto simp: doubleton_eq_iff)
    with \<open>u \<noteq> n\<close> \<open>v \<noteq> n\<close> show False by auto
  qed
  have disj: "key ` set H \<inter> key ` set L = {}"
  proof (rule equals0I)
    fix k assume "k \<in> key ` set H \<inter> key ` set L"
    then obtain e1 e2 where "e1 \<in> set H" "k = key e1" "e2 \<in> set L" "k = key e2"
      by (elim IntE imageE)
    with differ [of e1 e2] show False by simp
  qed
  have "edges_from (entry # al) seen = H @ L" by (simp add: entry H_def L_def)
  then have "map key (edges_from (entry # al) seen) = map key H @ map key L" by simp
  moreover have "distinct (map key H @ map key L)"
    using d1 d2 disj by (simp only: distinct_append set_map simp_thms)
  ultimately show ?case
    unfolding key_def by simp
qed

lemma simple_graph_distinct_adj: "distinct_adj (adj g) \<Longrightarrow> simple_graph g"
  by (simp add: simple_graph_def graph_edges_def distinct_edges_from)

text \<open>
  C6: whatever the table, the flags and the order in which the set of edges is
  iterated, the graph that \<open>create_weighted_undirected_graph\<close> returns has at most one
  edge between any unordered pair of nodes; it returns a graph whenever the lookups of
  \<open>get_edges\<close> succeed. With multiple edges allowed, the three edges from oxygen to
  oxygen of \<open>df_with_steps\<close> become one edge of the graph.
\<close>

theorem create_weighted_undirected_graph_simple:
  "(known (get_distinct_chemicals df) use_chemical_names (edge_tokens df) \<longrightarrow>
      (\<exists>g. create_weighted_undirected_graph order df use_chemical_names allow_multiple_edges
             = Inr (g, get_distinct_chemicals df)))
   \<and> (create_weighted_undirected_graph order df use_chemical_names allow_multiple_edges
         = Inr (g, nodes) \<longrightarrow> simple_graph g)"
proof (intro conjI impI)
  assume "known (get_distinct_chemicals df) use_chemical_names (edge_tokens df)"
  then obtain E where
    "returned (get_edges df (get_distinct_chemicals df) use_chemical_names allow_multiple_edges)
       = Inr E"
    using returned_known by blast
  then show "\<exists>g. create_weighted_undirected_graph order df use_chemical_names
                   allow_multiple_edges = Inr (g, get_distinct_chemicals df)"
    by (simp add: create_weighted_undirected_graph_def Let_def)
next
  assume "create_weighted_undirected_graph order df use_chemical_names allow_multiple_edges
         = Inr (g, nodes)"
  then obtain es ns where "g = add_weighted_edges_from es (add_nodes_from ns empty_graph)"
    by (auto simp: create_weighted_undirected_graph_def Let_def split: sum.splits if_splits)
  then have "distinct_adj (adj g)"
    by (simp add: distinct_adj_add_weighted_edges_from distinct_adj_add_nodes_from
        distinct_adj_empty)
  then show "simple_graph g" by (rule simple_graph_distinct_adj)
qed

theorem create_weighted_undirected_graph_simple_witness:
  "known (get_distinct_chemicals df_with_steps) False (edge_tokens df_with_steps)
   \<and> returned (get_edges df_with_steps (get_distinct_chemicals df_with_steps) False True)
       = Inr (set expected_edges_df_with_steps)
   \<and> (\<exists>g. create_weighted_undirected_graph (\<lambda>E. expected_edges_df_with_steps)
              df_with_steps False True = Inr (g, get_distinct_chemicals df_with_steps)
          \<and> simple_graph g
          \<and> graph_edges g =
              [(Index 1, Index 2, 2), (Index 1, Index 5, 2), (Index 2, Index 2, 4),
               (Index 2, Index 3, 2), (Index 2, Index 5, 2), (Index 3, Index 5, 2),
               (Index 3, Index 3, 3), (Index 4, Index 4, 1)])"
proof -
  let ?order = "\<lambda>E :: edge set. expected_edges_df_with_steps"
  let ?nodes = "get_distinct_chemicals df_with_steps"
  have k: "known ?nodes False (edge_tokens df_with_steps)"
    by code_simp
  have r: "returned (get_edges df_with_steps ?nodes False True)
       = Inr (set expected_edges_df_with_steps)"
    by code_simp
  note th = create_weighted_undirected_graph_simple [of df_with_steps False ?order True]
  from th k obtain g where
    g: "create_weighted_undirected_graph ?order df_with_steps False True = Inr (g, ?nodes)"
    by blast
  from th [of g ?nodes] g have s: "simple_graph g" by blast
  have "(case create_weighted_undirected_graph ?order df_with_steps False True of
           Inl e \<Rightarrow> [] | Inr (g, ns) \<Rightarrow> graph_edges g) =
        [(Index 1, Index 2, 2), (Index 1, Index 5, 2), (Index 2, Index 2, 4),
         (Index 2, Index 3, 2), (Index 2, Index 5, 2), (Index 3, Index 5, 2),
         (Index 3, Index 3, 3), (Index 4, Index 4, 1)]"
    by code_simp
  then have e: "graph_edges g =
        [(Index 1, Index 2, 2), (Index 1, Index 5, 2), (Index 2, Index 2, 4),
         (Index 2, Index 3, 2), (Index 2, Index 5, 2), (Index 3, Index 5, 2),
         (Index 3, Index 3, 3), (Index 4, Index 4, 1)]"
    by (simp add: g)
  from g s e have "\<exists>g. create_weighted_undirected_graph ?order df_with_steps False True
              = Inr (g, ?nodes)
          \<and> simple_graph g
          \<and> graph_edges g =
              [(Index 1, Index 2, 2), (Index 1, Index 5, 2), (Index 2, Index 2, 4),
               (Index 2, Index 3, 2), (Index 2, Index 5, 2), (Index 3, Index 5, 2),
               (Index 3, Index 3, 3), (Index 4, Index 4, 1)]"
    by blast
  with k r show ?thesis by (intro conjI)
qed

section \<open>Properties of the dispatch\<close>

text \<open>
  C4: the code at selector strings it does not know. \<open>degree_distribution.analyse\<close>
  with the plot type \<open>"histogram"\<close> returns normally and has called nothing;
  \<open>main.analyse\<close> with the option \<open>"unknown_option"\<close> returns 0 and has started no
  analysis; neither raises. The routines that take a degree type do raise on a string
  that is neither \<open>"out"\<close> nor \<open>"in"\<close>.
\<close>

theorem analyse_unknown_selector:
  "degree_distribution_analyse ''histogram'' = Inr []
   \<and> main_analyse ''unknown_option'' = ([], 0)
   \<and> create_comparison_scatter_plot_option1 ''total'' = Inl InvalidOption
   \<and> create_pdf_comparison ''total'' = Inl InvalidOption"
  by (simp add: degree_distribution_analyse_def main_analyse_def
      create_comparison_scatter_plot_option1_def create_pdf_comparison_def)

end
